theory Spec2Isabelle
  imports Main "HOL-Library.Multiset" "HOL-Library.Char_ord" "HOL-Library.List_Lexorder"
    "HOL-Library.Product_Lexorder"
begin

section \<open>The task page: data model\<close>

text \<open>
  The page component \<^verbatim>\<open>TasksPage\<close> keeps a list of tasks, a wizard step and a form
  draft, talks to a remote table service, and derives the displayed list by filtering
  and sorting. An optional field (\<^verbatim>\<open>due_date?: string\<close>) is a \<open>string option\<close>,
  \<open>None\<close> standing for \<^verbatim>\<open>undefined\<close> and \<^verbatim>\<open>null\<close> alike.

  A JavaScript string is a sequence of UTF-16 code units. The title is the one string
  whose characters the page inspects (\<^verbatim>\<open>data.title.trim()\<close>), so it is held as the
  list of its code units, numbers below 65536 (\<open>codeUnits\<close>); \<open>ascii\<close> gives the code
  units of an ASCII literal. The other strings are only copied, tested for emptiness and
  compared, and are \<open>string\<close>.

  \<^verbatim>\<open>Task.id\<close> is the field \<open>task_id\<close> and \<^verbatim>\<open>Task.note\<close> the field \<open>task_note\<close>
  (\<open>id\<close> is the identity function of HOL, \<open>note\<close> a keyword of Isar). The
  declared type of \<^verbatim>\<open>priority\<close> is the union of three literals, but rows come from the
  remote table unchecked and the sort guards against other values
  (\<^verbatim>\<open>priorityOrder[a.priority] || 3\<close>), so the field is any string, or absent.
\<close>

type_synonym codeUnits = "nat list"

definition ascii :: "string \<Rightarrow> codeUnits" where
  "ascii s = map of_char s"

record task =
  task_id :: string
  title :: codeUnits
  due_date :: "string option"
  task_note :: "string option"
  priority :: "string option"
  completed :: bool
  created_at :: "string option"

text \<open>
  \<^verbatim>\<open>FormData\<close>; the fields carry the prefix \<open>form_\<close> where a task field has the
  same name.
\<close>

record formData =
  form_title :: codeUnits
  form_due_date :: "string option"
  form_note :: "string option"
  form_priority :: "string option"
  tags :: "string option"
  subtasks :: "string option"
  recurring_interval :: "string option"

datatype filterMode = FilterAll | FilterCompleted | FilterPending

datatype sortMode = SortNewest | SortDue | SortPriority


section \<open>JavaScript values and operators used by the page\<close>

text \<open>
  The values a comparator of the page can compute: a number, \<^verbatim>\<open>NaN\<close>,
  \<^verbatim>\<open>undefined\<close>, or an object or function reached through the prototype of an
  object literal (\<open>Inherited\<close>). The numbers that occur are small integers.
\<close>

datatype jsval = Undefined | Number int | NaN | Inherited

fun truthy :: "jsval \<Rightarrow> bool" where
  "truthy Undefined = False"
| "truthy (Number n) = (n \<noteq> 0)"
| "truthy NaN = False"
| "truthy Inherited = True"

text \<open>\<^verbatim>\<open>x || d\<close> on values.\<close>

definition orElse :: "jsval \<Rightarrow> jsval \<Rightarrow> jsval" where
  "orElse x d = (if truthy x then x else d)"

text \<open>
  \<^verbatim>\<open>x - y\<close>: both operands go through \<^verbatim>\<open>ToNumber\<close>, which gives \<^verbatim>\<open>NaN\<close> for
  \<^verbatim>\<open>undefined\<close>, for a function and for a plain object.
\<close>

fun jsSub :: "jsval \<Rightarrow> jsval \<Rightarrow> jsval" where
  "jsSub (Number a) (Number b) = Number (a - b)"
| "jsSub _ _ = NaN"

text \<open>A string that may be absent is falsy when absent or empty.\<close>

fun present :: "string option \<Rightarrow> bool" where
  "present None = False"
| "present (Some s) = (s \<noteq> [])"

text \<open>\<^verbatim>\<open>s || ""\<close> and \<^verbatim>\<open>s || null\<close>.\<close>

fun orEmpty :: "string option \<Rightarrow> string" where
  "orEmpty None = []"
| "orEmpty (Some s) = s"

definition orNull :: "string option \<Rightarrow> string option" where
  "orNull s = (if present s then s else None)"

text \<open>
  Modelled from the spec: \<^verbatim>\<open>String.prototype.localeCompare\<close> is code of the engine,
  absent from the sources. The specification reads it as "lexical comparison" of the
  date and timestamp strings, which is what it is on the ISO dates and timestamps the
  page stores; it is modelled so, character code by character code, with results
  \<open>-1\<close>, \<open>0\<close> and \<open>1\<close>.
\<close>

fun localeCompare :: "string \<Rightarrow> string \<Rightarrow> int" where
  "localeCompare [] [] = 0"
| "localeCompare [] (y # ys) = - 1"
| "localeCompare (x # xs) [] = 1"
| "localeCompare (x # xs) (y # ys) =
     (if (of_char x :: nat) < of_char y then - 1
      else if (of_char y :: nat) < of_char x then 1
      else localeCompare xs ys)"

text \<open>
  \<^verbatim>\<open>String.prototype.trim\<close> removes from both ends the code points that ECMAScript
  calls \<^verbatim>\<open>WhiteSpace\<close> or \<^verbatim>\<open>LineTerminator\<close>:
  \<^item> U+0009 tab, U+000B vertical tab, U+000C form feed, U+FEFF (65279);
  \<^item> the space separators of Unicode: U+0020 space, U+00A0 no-break space (160),
    U+1680 (5760), U+2000 to U+200A (8192 to 8202), U+202F (8239), U+205F (8287),
    U+3000 (12288);
  \<^item> U+000A line feed, U+000D carriage return, U+2028 (8232), U+2029 (8233).

  All of them lie in the basic plane, so each is one code unit, and no half of a
  surrogate pair is among them: trimming code units is trimming code points.
\<close>

definition isWhiteSpace :: "nat \<Rightarrow> bool" where
  "isWhiteSpace c =
     (c \<in> {9, 10, 11, 12, 13, 32, 160, 5760, 8232, 8233, 8239, 8287, 12288, 65279}
      \<or> (8192 \<le> c \<and> c \<le> 8202))"

definition trim :: "codeUnits \<Rightarrow> codeUnits" where
  "trim s = rev (dropWhile isWhiteSpace (rev (dropWhile isWhiteSpace s)))"


section \<open>Array.prototype.sort\<close>

text \<open>
  \<^verbatim>\<open>result.sort(comparefn)\<close> is library code of the engine. ECMAScript fixes how a
  comparator result is read (\<open>SortCompare\<close>: the result goes through \<^verbatim>\<open>ToNumber\<close>, and
  \<^verbatim>\<open>NaN\<close> counts as \<open>0\<close>), requires a stable sort, and leaves to the engine the sequence
  of comparator calls; when the comparator is not consistent (for instance
  \<^verbatim>\<open>comparefn(a, a)\<close> is not \<open>0\<close>) the resulting order is implementation-defined.

  The model is insertion sort: each element in turn is placed into the sorted prefix,
  scanning the prefix from its end and moving earlier elements up until one must stay
  before the new item. The two argument orders an engine can use for the comparator
  call are both modelled:
  \<^item> \<open>EarlierFirst\<close>: \<^verbatim>\<open>if (comparefn(swap, item) <= 0) break;\<close>
  \<^item> \<open>LaterFirst\<close>: \<^verbatim>\<open>if (!(comparefn(item, swap) < 0)) break;\<close>

  where \<^verbatim>\<open>swap\<close> is the element of the prefix under inspection and \<^verbatim>\<open>item\<close> the
  element being placed, which came later in the input. On a comparator that decides by
  a key the two give the same list, the stable sort by that key (\<open>arraySort_keyed\<close>
  below), as the standard requires of every engine.
\<close>

datatype engine = EarlierFirst | LaterFirst

definition SortCompare :: "('a \<Rightarrow> 'a \<Rightarrow> jsval) \<Rightarrow> 'a \<Rightarrow> 'a \<Rightarrow> int" where
  "SortCompare comparefn x y = (case comparefn x y of Number n \<Rightarrow> n | _ \<Rightarrow> 0)"

fun stays :: "engine \<Rightarrow> ('a \<Rightarrow> 'a \<Rightarrow> jsval) \<Rightarrow> 'a \<Rightarrow> 'a \<Rightarrow> bool" where
  "stays EarlierFirst comparefn swap item = (SortCompare comparefn swap item \<le> 0)"
| "stays LaterFirst comparefn swap item = (\<not> SortCompare comparefn item swap < 0)"

text \<open>
  \<open>place e comparefn item prefix\<close>: the sorted prefix is held in reverse, its last
  element first, so that the scan from the end is a recursion on the list.
\<close>

fun place :: "engine \<Rightarrow> ('a \<Rightarrow> 'a \<Rightarrow> jsval) \<Rightarrow> 'a \<Rightarrow> 'a list \<Rightarrow> 'a list" where
  "place e comparefn item [] = [item]"
| "place e comparefn item (swap # earlier) =
     (if stays e comparefn swap item then item # swap # earlier
      else swap # place e comparefn item earlier)"

definition arraySort :: "engine \<Rightarrow> ('a \<Rightarrow> 'a \<Rightarrow> jsval) \<Rightarrow> 'a list \<Rightarrow> 'a list" where
  "arraySort e comparefn xs = rev (foldl (\<lambda>prefix item. place e comparefn item prefix) [] xs)"


section \<open>filteredTasks\<close>

text \<open>\<^verbatim>\<open>{ ...t, completed: !!t.completed }\<close>\<close>

definition coerce :: "task \<Rightarrow> task" where
  "coerce t = t\<lparr>completed := \<not> \<not> completed t\<rparr>"

text \<open>The comparator of sort mode "due" (lines 124 to 128).\<close>

definition dueCompare :: "task \<Rightarrow> task \<Rightarrow> jsval" where
  "dueCompare a b =
     (if \<not> present (due_date a) then Number 1
      else if \<not> present (due_date b) then Number (- 1)
      else Number (localeCompare (orEmpty (due_date a)) (orEmpty (due_date b))))"

text \<open>
  \<^verbatim>\<open>const priorityOrder = { High: 1, Medium: 2, Low: 3 }\<close> is an object literal, so a
  property read that misses the three own keys continues in \<^verbatim>\<open>Object.prototype\<close>:
  \<^verbatim>\<open>priorityOrder["constructor"]\<close> is a function, not \<^verbatim>\<open>undefined\<close>. An absent
  priority is read under the key \<^verbatim>\<open>"undefined"\<close> (or \<^verbatim>\<open>"null"\<close>), which nothing
  defines.
\<close>

definition objectPrototypeKeys :: "string list" where
  "objectPrototypeKeys =
     [''constructor'', ''hasOwnProperty'', ''isPrototypeOf'', ''propertyIsEnumerable'',
      ''toLocaleString'', ''toString'', ''valueOf'', ''__proto__'',
      ''__defineGetter__'', ''__defineSetter__'', ''__lookupGetter__'', ''__lookupSetter__'']"

definition propertyKey :: "string option \<Rightarrow> string" where
  "propertyKey p = (case p of None \<Rightarrow> ''undefined'' | Some s \<Rightarrow> s)"

definition priorityOrder :: "string \<Rightarrow> jsval" where
  "priorityOrder k =
     (if k = ''High'' then Number 1
      else if k = ''Medium'' then Number 2
      else if k = ''Low'' then Number 3
      else if k \<in> set objectPrototypeKeys then Inherited
      else Undefined)"

text \<open>The comparator of sort mode "priority" (line 131).\<close>

definition priorityCompare :: "task \<Rightarrow> task \<Rightarrow> jsval" where
  "priorityCompare a b =
     jsSub (orElse (priorityOrder (propertyKey (priority a))) (Number 3))
           (orElse (priorityOrder (propertyKey (priority b))) (Number 3))"

text \<open>The comparator of sort mode "newest" (line 133).\<close>

definition newestCompare :: "task \<Rightarrow> task \<Rightarrow> jsval" where
  "newestCompare a b = Number (localeCompare (orEmpty (created_at b)) (orEmpty (created_at a)))"

definition filteredTasks :: "engine \<Rightarrow> task list \<Rightarrow> filterMode \<Rightarrow> sortMode \<Rightarrow> task list" where
  "filteredTasks e tasks f sortBy =
     (let result = map coerce tasks;
          result = (if f = FilterCompleted then filter (\<lambda>t. completed t) result else result);
          result = (if f = FilterPending then filter (\<lambda>t. \<not> completed t) result else result)
      in case sortBy of
           SortDue \<Rightarrow> arraySort e dueCompare result
         | SortPriority \<Rightarrow> arraySort e priorityCompare result
         | SortNewest \<Rightarrow> arraySort e newestCompare result)"


section \<open>The remote service and the page state\<close>

text \<open>
  The table service is an opaque collaborator. A call takes the state of the service
  and returns a reply and the next state; \<open>'s\<close> is the type of that state. A table
  call answers with \<^verbatim>\<open>{ data, error }\<close>; \<^verbatim>\<open>error\<close> is an object with a message, or
  \<^verbatim>\<open>null\<close>. \<^verbatim>\<open>getSession\<close> gives the identifier of the session's user, or nothing.
\<close>

text \<open>The row literal of the insert call (lines 72 to 78).\<close>

record insertRow =
  user_id :: string
  row_title :: codeUnits
  row_due_date :: "string option"
  row_note :: "string option"
  row_priority :: string

datatype request =
    GetSession
  | Insert insertRow
  | Update string bool
  | Delete string

record response =
  data :: "task option"
  error :: "string option"

record 's service =
  getSession :: "'s \<Rightarrow> string option"
  insertTask :: "insertRow \<Rightarrow> 's \<Rightarrow> response \<times> 's"
  updateCompleted :: "string \<Rightarrow> bool \<Rightarrow> 's \<Rightarrow> response \<times> 's"
  deleteById :: "string \<Rightarrow> 's \<Rightarrow> string option \<times> 's"

text \<open>
  The state of the page (\<^verbatim>\<open>tasks\<close>, \<^verbatim>\<open>step\<close>, the values held by the form), together
  with what the page does to the outside: the lines written by \<^verbatim>\<open>console.error\<close>, the
  calls made to the service in order, and the state of the service.
\<close>

record 's world =
  tasks :: "task list"
  step :: int
  form :: formData
  console :: "string list"
  sent :: "request list"
  remote :: 's

text \<open>
  Modelled from the spec: \<^verbatim>\<open>reset\<close> comes from the form library, absent from the
  sources; the specification says it resets "the form to empty".
\<close>

definition emptyForm :: formData where
  "emptyForm = \<lparr>form_title = [], form_due_date = None, form_note = None, form_priority = None,
     tags = None, subtasks = None, recurring_interval = None\<rparr>"

definition initial :: "'s \<Rightarrow> 's world" where
  "initial r = \<lparr>tasks = [], step = 1, form = emptyForm, console = [], sent = [], remote = r\<rparr>"


section \<open>addTask, deleteTask, toggleTask\<close>

definition insertRowOf :: "string \<Rightarrow> formData \<Rightarrow> insertRow" where
  "insertRowOf uid d =
     \<lparr>user_id = uid,
      row_title = form_title d,
      row_due_date = orNull (form_due_date d),
      row_note = orNull (form_note d),
      row_priority = (if present (form_priority d) then orEmpty (form_priority d) else ''Medium'')\<rparr>"

definition addTask :: "'s service \<Rightarrow> formData \<Rightarrow> 's world \<Rightarrow> 's world" where
  "addTask svc d w =
     (if trim (form_title d) = [] then w
      else
        (let w1 = w\<lparr>sent := sent w @ [GetSession]\<rparr> in
         (case getSession svc (remote w) of
            None \<Rightarrow> w1
          | Some uid \<Rightarrow>
              (let (resp, r) = insertTask svc (insertRowOf uid d) (remote w);
                   w2 = w1\<lparr>sent := sent w1 @ [Insert (insertRowOf uid d)], remote := r\<rparr>
               in (case error resp of
                     Some msg \<Rightarrow> w2\<lparr>console := console w2 @ [''Error adding task: '' @ msg]\<rparr>
                   | None \<Rightarrow>
                       (let w3 = (case data resp of
                                    Some newTask \<Rightarrow> w2\<lparr>tasks := newTask # tasks w2\<rparr>
                                  | None \<Rightarrow> w2)
                        in w3\<lparr>form := emptyForm, step := 1\<rparr>))))))"

definition deleteTask :: "'s service \<Rightarrow> string \<Rightarrow> 's world \<Rightarrow> 's world" where
  "deleteTask svc i w =
     (let (err, r) = deleteById svc i (remote w);
          w1 = w\<lparr>sent := sent w @ [Delete i], remote := r\<rparr>
      in case err of
           Some msg \<Rightarrow> w1\<lparr>console := console w1 @ [''Error deleting task: '' @ msg]\<rparr>
         | None \<Rightarrow> w1\<lparr>tasks := filter (\<lambda>task. task_id task \<noteq> i) (tasks w1)\<rparr>)"

definition toggleTask :: "'s service \<Rightarrow> task \<Rightarrow> 's world \<Rightarrow> 's world" where
  "toggleTask svc task w =
     (let (resp, r) = updateCompleted svc (task_id task) (\<not> completed task) (remote w);
          w1 = w\<lparr>sent := sent w @ [Update (task_id task) (\<not> completed task)], remote := r\<rparr>
      in case error resp of
           Some msg \<Rightarrow> w1\<lparr>console := console w1 @ [''Error toggling task: '' @ msg]\<rparr>
         | None \<Rightarrow>
             (case data resp of
                Some updatedTask \<Rightarrow>
                  w1\<lparr>tasks := map (\<lambda>t. if task_id t = task_id updatedTask then updatedTask else t)
                                  (tasks w1)\<rparr>
              | None \<Rightarrow> w1))"


section \<open>The wizard's navigation buttons\<close>

text \<open>
  \<^verbatim>\<open>{step > 1 && <button onClick={() => setStep(step - 1)}>Back</button>}\<close> and
  \<^verbatim>\<open>{step < 3 && <button onClick={() => setStep(step + 1)}>Next</button>}\<close>: a button
  exists only while its guard holds, so a click outside the guard cannot happen and
  leaves the state as it is.
\<close>

datatype button = Back | Next

fun rendered :: "button \<Rightarrow> int \<Rightarrow> bool" where
  "rendered Back s = (s > 1)"
| "rendered Next s = (s < 3)"

fun onClick :: "button \<Rightarrow> int \<Rightarrow> int" where
  "onClick Back s = s - 1"
| "onClick Next s = s + 1"

definition click :: "button \<Rightarrow> 's world \<Rightarrow> 's world" where
  "click b w = (if rendered b (step w) then w\<lparr>step := onClick b (step w)\<rparr> else w)"

definition clicks :: "button list \<Rightarrow> 's world \<Rightarrow> 's world" where
  "clicks bs w = foldl (\<lambda>w b. click b w) w bs"


section \<open>A table service to run the operations on\<close>

text \<open>
  A small service with a table of rows, used to run the operations on concrete inputs:
  it answers every table call with the error \<open>outage\<close> while that is set, and otherwise
  inserts, updates and deletes in its table. An update read back through
  \<^verbatim>\<open>.single()\<close> fails unless exactly one row matches.
\<close>

record server =
  session :: "string option"
  outage :: "string option"
  rows :: "task list"

definition serverInsert :: "insertRow \<Rightarrow> server \<Rightarrow> response \<times> server" where
  "serverInsert r s =
     (case outage s of
        Some msg \<Rightarrow> (\<lparr>data = None, error = Some msg\<rparr>, s)
      | None \<Rightarrow>
          let t = \<lparr>task_id = replicate (Suc (length (rows s))) CHR ''i'', title = row_title r,
                   due_date = row_due_date r, task_note = row_note r,
                   priority = Some (row_priority r), completed = False,
                   created_at = Some ''2024-01-01''\<rparr>
          in (\<lparr>data = Some t, error = None\<rparr>, s\<lparr>rows := t # rows s\<rparr>))"

definition serverUpdate :: "string \<Rightarrow> bool \<Rightarrow> server \<Rightarrow> response \<times> server" where
  "serverUpdate i c s =
     (case outage s of
        Some msg \<Rightarrow> (\<lparr>data = None, error = Some msg\<rparr>, s)
      | None \<Rightarrow>
          (case filter (\<lambda>r. task_id r = i) (rows s) of
             [r] \<Rightarrow> (\<lparr>data = Some (r\<lparr>completed := c\<rparr>), error = None\<rparr>,
                     s\<lparr>rows := map (\<lambda>x. if task_id x = i then x\<lparr>completed := c\<rparr> else x) (rows s)\<rparr>)
           | _ \<Rightarrow> (\<lparr>data = None, error = Some ''not a single row''\<rparr>, s)))"

definition serverDelete :: "string \<Rightarrow> server \<Rightarrow> string option \<times> server" where
  "serverDelete i s =
     (case outage s of
        Some msg \<Rightarrow> (Some msg, s)
      | None \<Rightarrow> (None, s\<lparr>rows := filter (\<lambda>r. task_id r \<noteq> i) (rows s)\<rparr>))"

definition tableService :: "server service" where
  "tableService = \<lparr>getSession = session, insertTask = serverInsert,
     updateCompleted = serverUpdate, deleteById = serverDelete\<rparr>"


section \<open>Reference notions the code is compared with\<close>

text \<open>
  \<open>keyed e comparefn k S\<close>: on the elements of \<open>S\<close> the comparator, as the engine \<open>e\<close>
  asks it, decides exactly by the key \<open>k\<close>: an element of the prefix stays before the
  item iff its key is not greater.
\<close>

definition keyed :: "engine \<Rightarrow> ('a \<Rightarrow> 'a \<Rightarrow> jsval) \<Rightarrow> ('a \<Rightarrow> 'k :: linorder) \<Rightarrow> 'a set \<Rightarrow> bool" where
  "keyed e f k S = (\<forall>a\<in>S. \<forall>b\<in>S. stays e f a b = (k a \<le> k b))"


text \<open>
  The rank the specification gives a task in sort mode "priority": High 1, Medium 2,
  Low 3, and 3 for every other or missing value.
\<close>

definition rank :: "task \<Rightarrow> int" where
  "rank t = (if priority t = Some ''High'' then 1 else if priority t = Some ''Medium'' then 2 else 3)"


text \<open>
  The filter of the specification: "completed" keeps the completed tasks, "pending" the
  others, "all" every task.
\<close>

fun keeps :: "filterMode \<Rightarrow> task \<Rightarrow> bool" where
  "keeps FilterAll t = True"
| "keeps FilterCompleted t = completed t"
| "keeps FilterPending t = (\<not> completed t)"


text \<open>The comparator that \<open>filteredTasks\<close> passes to the sort in each mode.\<close>

fun comparator :: "sortMode \<Rightarrow> task \<Rightarrow> task \<Rightarrow> jsval" where
  "comparator SortNewest = newestCompare"
| "comparator SortDue = dueCompare"
| "comparator SortPriority = priorityCompare"


text \<open>The set of identifiers of a list of tasks.\<close>

definition ids :: "task list \<Rightarrow> string set" where
  "ids ts = set (map task_id ts)"


text \<open>
  Entries of a task list that carry the same identifier carry the same completion flag.
  The identifiers of rows are assigned by the server and unique, and the page rewrites
  every entry of an identifier at once, so this holds of every list the page holds.
\<close>

definition sameFlag :: "task list \<Rightarrow> bool" where
  "sameFlag ts = (\<forall>a\<in>set ts. \<forall>b\<in>set ts. task_id a = task_id b \<longrightarrow> completed a = completed b)"


text \<open>
  A task has a due date when the field is a non-empty string. The order the
  specification gives sort mode "due" is the order of the key \<open>dueKey\<close>: tasks with a
  due date first, by their date in lexical order, then the tasks without one, all with
  the same key. The order of strings is the lexicographic order of their character
  codes.
\<close>

definition dated :: "task \<Rightarrow> bool" where
  "dated t = present (due_date t)"

definition dueKey :: "task \<Rightarrow> bool \<times> string" where
  "dueKey t = (\<not> present (due_date t), if present (due_date t) then orEmpty (due_date t) else [])"


text \<open>
  The row a toggle asks for, and a service that applies the toggle of task \<open>t\<close> in state
  \<open>r\<close>: it answers without error and returns \<open>t\<close> with the completion flag negated.
\<close>

definition flipped :: "task \<Rightarrow> task" where
  "flipped t = t\<lparr>completed := \<not> completed t\<rparr>"

definition appliesToggle :: "'s service \<Rightarrow> task \<Rightarrow> 's \<Rightarrow> bool" where
  "appliesToggle svc t r =
     (fst (updateCompleted svc (task_id t) (\<not> completed t) r) = \<lparr>data = Some (flipped t), error = None\<rparr>)"


section \<open>Concrete inputs\<close>

text \<open>Tasks, form values, a server and a page state for evaluating the operations.\<close>

definition exTask :: "string \<Rightarrow> string option \<Rightarrow> string option \<Rightarrow> bool \<Rightarrow> task" where
  "exTask i d p c = \<lparr>task_id = i, title = ascii ''A'', due_date = d, task_note = None, priority = p,
     completed = c, created_at = None\<rparr>"

definition exForm :: "codeUnits \<Rightarrow> formData" where
  "exForm s = \<lparr>form_title = s, form_due_date = Some [], form_note = Some ''call first'',
     form_priority = None, tags = Some ''home,urgent'', subtasks = Some ''a,b'',
     recurring_interval = Some ''weekly''\<rparr>"

definition exServer :: "string option \<Rightarrow> task list \<Rightarrow> server" where
  "exServer down ts = \<lparr>session = Some ''user-1'', outage = down, rows = ts\<rparr>"

definition exWorld :: "string option \<Rightarrow> task list \<Rightarrow> server world" where
  "exWorld down ts = \<lparr>tasks = ts, step = 3, form = exForm (ascii ''Buy milk''), console = [], sent = [],
     remote = exServer down ts\<rparr>"


section \<open>The sort returns a permutation\<close>

lemma mset_place: "mset (place e f x acc) = add_mset x (mset acc)"
  by (induction acc) auto

lemma set_place: "set (place e f x acc) = insert x (set acc)"
  by (induction acc) auto

lemma mset_insertion: "mset (foldl (\<lambda>prefix item. place e f item prefix) acc xs) = mset acc + mset xs"
  by (induction xs arbitrary: acc) (auto simp: mset_place)

lemma mset_arraySort: "mset (arraySort e f xs) = mset xs"
  by (simp add: arraySort_def mset_insertion)

lemma set_arraySort: "set (arraySort e f xs) = set xs"
  using mset_arraySort [of e f xs] by (metis set_mset_mset)


section \<open>The sort on a comparator that decides by a key\<close>

text \<open>
  When the comparator decides by a key on the elements of the list, the result is sorted
  by the key, keeps the input order among elements of equal key, and so is the stable
  sort \<open>sort_key\<close>, whichever way round the engine calls the comparator.
\<close>

lemma filter_place:
  assumes "\<And>y. y \<in> set acc \<Longrightarrow> stays e f y x = (k y \<le> (k x :: 'k :: linorder))"
  shows "filter (\<lambda>t. k t = c) (place e f x acc) = (if k x = c then [x] else []) @ filter (\<lambda>t. k t = c) acc"
  using assms by (induction acc) auto

lemma sorted_place:
  assumes "\<And>y. y \<in> set acc \<Longrightarrow> stays e f y x = (k y \<le> (k x :: 'k :: linorder))"
    and "sorted (rev (map k acc))"
  shows "sorted (rev (map k (place e f x acc)))"
  using assms
proof (induction acc)
  case Nil
  then show ?case by simp
next
  case (Cons y ys)
  show ?case
  proof (cases "stays e f y x")
    case True
    with Cons.prems show ?thesis by (auto simp: sorted_append)
  next
    case False
    with Cons show ?thesis by (auto simp: sorted_append set_place)
  qed
qed

lemma insertion_keyed:
  assumes "keyed e f k (set acc \<union> set xs)" and "sorted (rev (map k acc))"
  shows "sorted (rev (map k (foldl (\<lambda>prefix item. place e f item prefix) acc xs)))
    \<and> filter (\<lambda>t. k t = c) (rev (foldl (\<lambda>prefix item. place e f item prefix) acc xs))
        = filter (\<lambda>t. k t = c) (rev acc) @ filter (\<lambda>t. k t = c) xs"
  using assms
proof (induction xs arbitrary: acc)
  case Nil
  then show ?case by simp
next
  case (Cons x xs)
  have st: "\<And>y. y \<in> set acc \<Longrightarrow> stays e f y x = (k y \<le> k x)"
    using Cons.prems(1) by (simp add: keyed_def)
  have k': "keyed e f k (set (place e f x acc) \<union> set xs)"
    using Cons.prems(1) by (simp add: set_place keyed_def)
  have s': "sorted (rev (map k (place e f x acc)))"
    using sorted_place [of acc e f x k] st Cons.prems(2) by blast
  have f': "filter (\<lambda>t. k t = c) (rev (place e f x acc)) = filter (\<lambda>t. k t = c) (rev acc) @ (if k x = c then [x] else [])"
    using filter_place [of acc e f x k c] st by (simp flip: rev_filter)
  from Cons.IH [OF k' s'] f' show ?case by simp
qed

lemma arraySort_keyed:
  assumes "keyed e f k (set xs)"
  shows "arraySort e f xs = sort_key k xs"
proof -
  let ?ys = "arraySort e f xs"
  have a: "sorted (map k ?ys)" and b: "\<And>c. filter (\<lambda>t. k t = c) ?ys = filter (\<lambda>t. k t = c) xs"
    using insertion_keyed [of e f k "[]" xs] assms by (simp_all add: arraySort_def rev_map)
  have "sort_key k xs = ?ys"
  proof (rule properties_for_sort_key)
    show "mset ?ys = mset xs" by (rule mset_arraySort)
    show "sorted (map k ?ys)" by (rule a)
    show "filter (\<lambda>x. k j = k x) ?ys = filter (\<lambda>x. k j = k x) xs" for j
      using b [of "k j"] by (simp add: eq_commute)
  qed
  then show ?thesis by simp
qed

lemma place_sort_key:
  assumes "keyed e f k (insert x (set ys))"
  shows "rev (place e f x (rev (sort_key k ys))) = sort_key k (ys @ [x])"
proof -
  let ?acc = "rev (sort_key k ys)"
  have st: "\<And>y. y \<in> set ?acc \<Longrightarrow> stays e f y x = (k y \<le> k x)"
    using assms by (simp add: keyed_def)
  have "sort_key k (ys @ [x]) = rev (place e f x ?acc)"
  proof (rule properties_for_sort_key)
    show "mset (rev (place e f x ?acc)) = mset (ys @ [x])"
      by (simp add: mset_place)
    show "sorted (map k (rev (place e f x ?acc)))"
      using sorted_place [of ?acc e f x k] st by (simp add: rev_map)
    show "filter (\<lambda>t. k j = k t) (rev (place e f x ?acc)) = filter (\<lambda>t. k j = k t) (ys @ [x])" for j
      using filter_place [of ?acc e f x k "k j"] st
      by (simp add: rev_filter [symmetric] eq_commute sort_key_stable [of k "k j" ys, simplified eq_commute])
  qed
  then show ?thesis by simp
qed

lemma place_skip:
  assumes "\<forall>u\<in>set us. \<not> stays e f u x"
  shows "place e f x (us @ rest) = us @ place e f x rest"
  using assms by (induction us) simp_all


section \<open>filteredTasks is a filter followed by a sort\<close>

lemma coerce_same: "coerce t = t"
  by (simp add: coerce_def)

lemma map_coerce: "map coerce ts = ts"
  by (induction ts) (simp_all add: coerce_same)

lemma filter_keeps:
  "filter (keeps FilterAll) ts = ts"
  "filter (keeps FilterCompleted) ts = filter (\<lambda>t. completed t) ts"
  "filter (keeps FilterPending) ts = filter (\<lambda>t. \<not> completed t) ts"
  by (induction ts) simp_all

lemma filteredTasks_eq:
  "filteredTasks e ts f sortBy = arraySort e (comparator sortBy) (filter (keeps f) ts)"
  by (cases f; cases sortBy) (simp_all add: filteredTasks_def map_coerce filter_keeps)


section \<open>The concrete inputs, evaluated\<close>

lemma exWorld_simps:
  "tasks (exWorld down ts) = ts" "step (exWorld down ts) = 3"
  "form (exWorld down ts) = exForm (ascii ''Buy milk'')" "console (exWorld down ts) = []"
  "sent (exWorld down ts) = []" "remote (exWorld down ts) = exServer down ts"
  by (simp_all add: exWorld_def)

lemma tableService_simps:
  "getSession tableService (exServer down ts) = Some ''user-1''"
  "insertTask tableService r (exServer (Some m) ts) = (\<lparr>data = None, error = Some m\<rparr>, exServer (Some m) ts)"
  "updateCompleted tableService i c (exServer (Some m) ts) = (\<lparr>data = None, error = Some m\<rparr>, exServer (Some m) ts)"
  "deleteById tableService i (exServer (Some m) ts) = (Some m, exServer (Some m) ts)"
  "deleteById tableService i (exServer None ts) = (None, exServer None (filter (\<lambda>r. task_id r \<noteq> i) ts))"
  by (simp_all add: tableService_def exServer_def serverInsert_def serverUpdate_def serverDelete_def)

lemma trim_example:
  "trim (ascii ''  Buy milk '') = ascii ''Buy milk''" "trim (ascii ''Buy milk'') = ascii ''Buy milk''"
  "ascii ''Buy milk'' \<noteq> []"
  "trim [160, 8232, 66, 117, 121, 12288, 65279] = [66, 117, 121]"
  by (simp_all add: trim_def isWhiteSpace_def ascii_def)


section \<open>Sort mode "due"\<close>

text \<open>The model of \<^verbatim>\<open>localeCompare\<close> is the three-way comparison of the lexicographic order.\<close>

lemma localeCompare_order:
  "localeCompare a b = (if a < b then - 1 else if a = b then 0 else 1)"
proof (induction a b rule: localeCompare.induct)
  case (4 x xs y ys)
  show ?case
  proof (cases "(of_char x :: nat) < of_char y")
    case True
    then have "x < y" by (simp add: less_char_def)
    then show ?thesis using True by simp
  next
    case False
    show ?thesis
    proof (cases "(of_char y :: nat) < of_char x")
      case True
      then have "y < x" by (simp add: less_char_def)
      then show ?thesis using True False by (auto simp: less_char_def)
    next
      case F2: False
      with False have "\<not> x < y" and "\<not> y < x" by (simp_all add: less_char_def)
      then have "x = y" by auto
      with 4 False F2 show ?thesis by simp
    qed
  qed
qed simp_all


text \<open>
  The comparator returns \<open>1\<close> as soon as its first argument has no due date, before it
  looks at the second. Asked with the later element first, it decides by \<open>dueKey\<close> and
  the sort is the stable sort by that key. Asked with the earlier element first, it
  tells the sort to move every task without a due date behind a later one without a due
  date: the tasks with a due date still come first and in stable lexical order, and the
  tasks without one follow in the reverse of their input order.
\<close>

lemma dueCompare_cases:
  "\<not> dated a \<Longrightarrow> SortCompare dueCompare a b = 1"
  "dated a \<Longrightarrow> \<not> dated b \<Longrightarrow> SortCompare dueCompare a b = - 1"
  "dated a \<Longrightarrow> dated b \<Longrightarrow>
     SortCompare dueCompare a b = localeCompare (orEmpty (due_date a)) (orEmpty (due_date b))"
  by (simp_all add: SortCompare_def dueCompare_def dated_def)

lemma dueKey_le:
  "dueKey a \<le> dueKey b =
     (if dated a then (dated b \<longrightarrow> orEmpty (due_date a) \<le> orEmpty (due_date b)) else \<not> dated b)"
  by (auto simp: dueKey_def dated_def less_eq_prod_def)

lemma due_keyed_later: "keyed LaterFirst dueCompare dueKey S"
  unfolding keyed_def
proof (intro ballI)
  fix a b :: task
  show "stays LaterFirst dueCompare a b = (dueKey a \<le> dueKey b)"
    by (cases "dated a"; cases "dated b")
       (auto simp: dueCompare_cases dueKey_le localeCompare_order)
qed

lemma due_keyed_earlier:
  assumes "\<forall>t\<in>S. dated t"
  shows "keyed EarlierFirst dueCompare dueKey S"
  unfolding keyed_def
proof (intro ballI)
  fix a b assume "a \<in> S" "b \<in> S"
  then have "dated a" "dated b" using assms by auto
  then show "stays EarlierFirst dueCompare a b = (dueKey a \<le> dueKey b)"
    by (auto simp: dueCompare_cases dueKey_le localeCompare_order)
qed

lemma due_sort_later_first: "arraySort LaterFirst dueCompare xs = sort_key dueKey xs"
  by (rule arraySort_keyed) (rule due_keyed_later)

lemma insertion_due_earlier:
  "foldl (\<lambda>prefix item. place EarlierFirst dueCompare item prefix)
      (filter (\<lambda>t. \<not> dated t) seen @ rev (sort_key dueKey (filter dated seen))) xs
   = filter (\<lambda>t. \<not> dated t) (seen @ xs) @ rev (sort_key dueKey (filter dated (seen @ xs)))"
proof (induction xs arbitrary: seen)
  case Nil
  then show ?case by simp
next
  case (Cons x xs)
  let ?U = "filter (\<lambda>t. \<not> dated t) seen"
  let ?D = "sort_key dueKey (filter dated seen)"
  have skip: "place EarlierFirst dueCompare x (?U @ rev ?D) = ?U @ place EarlierFirst dueCompare x (rev ?D)"
    by (rule place_skip) (simp add: dueCompare_cases)
  have step: "place EarlierFirst dueCompare x (?U @ rev ?D)
      = filter (\<lambda>t. \<not> dated t) (seen @ [x]) @ rev (sort_key dueKey (filter dated (seen @ [x])))"
  proof (cases "dated x")
    case True
    have "keyed EarlierFirst dueCompare dueKey (insert x (set (filter dated seen)))"
      using True by (intro due_keyed_earlier) simp
    from place_sort_key [OF this]
    have "place EarlierFirst dueCompare x (rev ?D) = rev (sort_key dueKey (filter dated seen @ [x]))"
      by (metis rev_rev_ident)
    with skip True show ?thesis by simp
  next
    case False
    have "place EarlierFirst dueCompare x (rev ?D) = x # rev ?D"
    proof (cases "rev ?D")
      case Nil
      then show ?thesis by simp
    next
      case (Cons y ys)
      then have "y \<in> set (filter dated seen)"
        by (metis list.set_intros(1) set_rev set_sort)
      then have "dated y" by simp
      with False Cons show ?thesis by (simp add: dueCompare_cases)
    qed
    with skip False show ?thesis by simp
  qed
  have "foldl (\<lambda>prefix item. place EarlierFirst dueCompare item prefix) (?U @ rev ?D) (x # xs)
      = foldl (\<lambda>prefix item. place EarlierFirst dueCompare item prefix)
          (filter (\<lambda>t. \<not> dated t) (seen @ [x]) @ rev (sort_key dueKey (filter dated (seen @ [x])))) xs"
    by (simp only: foldl_Cons step)
  also have "\<dots> = filter (\<lambda>t. \<not> dated t) ((seen @ [x]) @ xs)
      @ rev (sort_key dueKey (filter dated ((seen @ [x]) @ xs)))"
    by (rule Cons.IH)
  finally show ?case by simp
qed

lemma due_sort_earlier_first:
  "arraySort EarlierFirst dueCompare xs
   = sort_key dueKey (filter dated xs) @ rev (filter (\<lambda>t. \<not> dated t) xs)"
  using insertion_due_earlier [of "[]" xs] by (simp add: arraySort_def)


text \<open>
  C1. Sort mode "due" is claimed to order tasks by ascending lexical comparison of their
  due dates, to place every task without a due date after every task with one, and to
  keep the input order of two tasks that both lack a due date. The first two parts hold
  for both argument orders of the comparator call (\<open>due_sort_later_first\<close>,
  \<open>due_sort_earlier_first\<close>). The third does not follow from the comparator: for two
  tasks without a due date it answers \<open>1\<close> both ways round, which is not a consistent
  comparator. On the list of the two tasks \<open>1\<close> and \<open>2\<close>, neither with a due date, a
  sort that asks \<^verbatim>\<open>comparefn(earlier, later)\<close> returns them as \<open>2, 1\<close>; one that asks
  \<^verbatim>\<open>comparefn(later, earlier)\<close> returns \<open>1, 2\<close>.
\<close>

theorem C1_due_undated_pair:
  "dueCompare (exTask ''1'' None None False) (exTask ''2'' None None False) = Number 1
   \<and> dueCompare (exTask ''2'' None None False) (exTask ''1'' None None False) = Number 1
   \<and> map task_id (filteredTasks EarlierFirst
        [exTask ''1'' None None False, exTask ''2'' None None False] FilterAll SortDue) = [''2'', ''1'']
   \<and> map task_id (filteredTasks LaterFirst
        [exTask ''1'' None None False, exTask ''2'' None None False] FilterAll SortDue) = [''1'', ''2'']"
  by (simp add: filteredTasks_eq arraySort_def exTask_def SortCompare_def dueCompare_def)


section \<open>Sort mode "priority"\<close>

text \<open>
  On tasks whose priority does not name an inherited property the comparator is the
  difference of the ranks.
\<close>

lemma priorityCompare_rank:
  assumes "propertyKey (priority a) \<notin> set objectPrototypeKeys"
    and "propertyKey (priority b) \<notin> set objectPrototypeKeys"
  shows "SortCompare priorityCompare a b = rank a - rank b"
proof -
  have r: "orElse (priorityOrder (propertyKey (priority t))) (Number 3) = Number (rank t)"
    if "propertyKey (priority t) \<notin> set objectPrototypeKeys" for t
    using that
    by (cases "priority t") (auto simp: orElse_def priorityOrder_def propertyKey_def rank_def)
  show ?thesis
    by (simp add: SortCompare_def priorityCompare_def r [OF assms(1)] r [OF assms(2)])
qed

lemma priorityCompare_keyed:
  assumes "\<forall>t\<in>S. propertyKey (priority t) \<notin> set objectPrototypeKeys"
  shows "keyed e priorityCompare rank S"
  unfolding keyed_def
proof (intro ballI)
  fix a b assume "a \<in> S" "b \<in> S"
  then have "SortCompare priorityCompare a b = rank a - rank b"
    and "SortCompare priorityCompare b a = rank b - rank a"
    using assms by (simp_all add: priorityCompare_rank)
  then show "stays e priorityCompare a b = (rank a \<le> rank b)"
    by (cases e) auto
qed


text \<open>
  So on every task list in which no priority names an inherited property (High, Medium,
  Low, a missing value, or any other string outside \<open>objectPrototypeKeys\<close>), for every
  filter mode and both argument orders of the comparator call, the list shown in sort
  mode "priority" is sorted by rank, keeps the input order among tasks of equal rank, is
  a permutation of the filtered input, and is the stable sort of the filtered input by
  rank.
\<close>

lemma priority_sort_stable:
  assumes "\<forall>t\<in>set ts. propertyKey (priority t) \<notin> set objectPrototypeKeys"
  shows "sorted (map rank (filteredTasks e ts f SortPriority))
    \<and> (\<forall>k. filter (\<lambda>t. rank t = k) (filteredTasks e ts f SortPriority)
            = filter (\<lambda>t. rank t = k) (filter (keeps f) ts))
    \<and> mset (filteredTasks e ts f SortPriority) = mset (filter (keeps f) ts)
    \<and> filteredTasks e ts f SortPriority = sort_key rank (filter (keeps f) ts)"
proof -
  have "keyed e priorityCompare rank (set (filter (keeps f) ts))"
    using assms by (intro priorityCompare_keyed) simp
  then have "filteredTasks e ts f SortPriority = sort_key rank (filter (keeps f) ts)"
    by (simp add: filteredTasks_eq arraySort_keyed)
  then show ?thesis
    by (simp add: sort_key_stable)
qed


text \<open>Six tasks with the priorities Low, "urgent", High, missing, Medium and High.\<close>

lemma priority_sort_example:
  "map (\<lambda>t. propertyKey (priority t))
       [exTask ''1'' None (Some ''Low'') False, exTask ''2'' None (Some ''urgent'') False,
         exTask ''3'' None (Some ''High'') False, exTask ''4'' None None False,
         exTask ''5'' None (Some ''Medium'') False, exTask ''6'' None (Some ''High'') False]
     = [''Low'', ''urgent'', ''High'', ''undefined'', ''Medium'', ''High'']
   \<and> map task_id (filteredTasks EarlierFirst
        [exTask ''1'' None (Some ''Low'') False, exTask ''2'' None (Some ''urgent'') False,
         exTask ''3'' None (Some ''High'') False, exTask ''4'' None None False,
         exTask ''5'' None (Some ''Medium'') False, exTask ''6'' None (Some ''High'') False]
        FilterAll SortPriority) = [''3'', ''6'', ''5'', ''1'', ''2'', ''4'']"
proof -
  let ?xs = "[exTask ''1'' None (Some ''Low'') False, exTask ''2'' None (Some ''urgent'') False,
         exTask ''3'' None (Some ''High'') False, exTask ''4'' None None False,
         exTask ''5'' None (Some ''Medium'') False, exTask ''6'' None (Some ''High'') False]"
  have h: "\<forall>t\<in>set ?xs. propertyKey (priority t) \<notin> set objectPrototypeKeys"
    by (simp add: exTask_def propertyKey_def objectPrototypeKeys_def)
  have "filteredTasks EarlierFirst ?xs FilterAll SortPriority = sort_key rank (filter (keeps FilterAll) ?xs)"
    using priority_sort_stable [OF h, of EarlierFirst FilterAll] by blast
  then have "map task_id (filteredTasks EarlierFirst ?xs FilterAll SortPriority) = [''3'', ''6'', ''5'', ''1'', ''2'', ''4'']"
    by (simp add: exTask_def rank_def)
  moreover have "map (\<lambda>t. propertyKey (priority t)) ?xs
      = [''Low'', ''urgent'', ''High'', ''undefined'', ''Medium'', ''High'']"
    by (simp add: exTask_def propertyKey_def)
  ultimately show ?thesis by blast
qed


text \<open>
  C2. Sort mode "priority" is claimed to be total and stable on every task list,
  unrecognized and missing priorities ranking with Low at 3. The guard of the code for
  such values is \<^verbatim>\<open>|| 3\<close>, and it misses the priorities that name a property inherited
  from \<^verbatim>\<open>Object.prototype\<close>: \<^verbatim>\<open>priorityOrder["constructor"]\<close> is a function, truthy, so
  \<^verbatim>\<open>|| 3\<close> keeps it and the subtraction gives \<^verbatim>\<open>NaN\<close>, which the sort reads as "equal".
  The task then compares equal to every other task instead of ranking with Low. On the
  list of task \<open>1\<close> (Low), task \<open>2\<close> ("constructor") and task \<open>3\<close> (High) no comparison
  moves the High task, with either argument order of the comparator call: the list is
  shown as it came, High after Low, and is not sorted by rank.
\<close>

theorem C2_priority_inherited_key:
  "priorityCompare (exTask ''3'' None (Some ''High'') False) (exTask ''2'' None (Some ''constructor'') False) = NaN
  \<and> priorityCompare (exTask ''2'' None (Some ''constructor'') False) (exTask ''1'' None (Some ''Low'') False) = NaN
  \<and> map (\<lambda>t. (task_id t, priority t))
     (filteredTasks LaterFirst
        [exTask ''1'' None (Some ''Low'') False, exTask ''2'' None (Some ''constructor'') False,
         exTask ''3'' None (Some ''High'') False] FilterAll SortPriority)
   = [(''1'', Some ''Low''), (''2'', Some ''constructor''), (''3'', Some ''High'')]
  \<and> map (\<lambda>t. (task_id t, priority t))
     (filteredTasks EarlierFirst
        [exTask ''1'' None (Some ''Low'') False, exTask ''2'' None (Some ''constructor'') False,
         exTask ''3'' None (Some ''High'') False] FilterAll SortPriority)
   = [(''1'', Some ''Low''), (''2'', Some ''constructor''), (''3'', Some ''High'')]
  \<and> \<not> sorted (map rank (filteredTasks LaterFirst
        [exTask ''1'' None (Some ''Low'') False, exTask ''2'' None (Some ''constructor'') False,
         exTask ''3'' None (Some ''High'') False] FilterAll SortPriority))
  \<and> \<not> sorted (map rank (filteredTasks EarlierFirst
        [exTask ''1'' None (Some ''Low'') False, exTask ''2'' None (Some ''constructor'') False,
         exTask ''3'' None (Some ''High'') False] FilterAll SortPriority))"
  by (simp add: filteredTasks_eq arraySort_def exTask_def SortCompare_def priorityCompare_def
      priorityOrder_def propertyKey_def orElse_def objectPrototypeKeys_def rank_def)


section \<open>The scenario of the specification\<close>

text \<open>
  The scenario of the specification: task \<open>1\<close> (Low, no due date, created first) and
  task \<open>2\<close> (High, due, created second) are shown as \<open>2, 1\<close> in every sort mode.
\<close>

lemma spec_scenario:
  "map task_id (filteredTasks e
      [\<lparr>task_id = ''1'', title = ascii ''A'', due_date = None, task_note = None, priority = Some ''Low'',
         completed = False, created_at = Some ''2024-01-01''\<rparr>,
       \<lparr>task_id = ''2'', title = ascii ''B'', due_date = Some ''2024-02-01'', task_note = None,
         priority = Some ''High'', completed = False, created_at = Some ''2024-01-02''\<rparr>]
      FilterPending sortBy) = [''2'', ''1'']"
  by (cases e; cases sortBy)
     (simp_all add: filteredTasks_eq arraySort_def SortCompare_def dueCompare_def
        priorityCompare_def newestCompare_def priorityOrder_def propertyKey_def orElse_def)


section \<open>Filter modes\<close>

text \<open>
  \<open>sameFlag\<close> holds of every list with pairwise distinct identifiers and of the empty
  list the page starts with, and every operation of the page keeps it: \<open>toggleTask\<close>
  replaces every entry of the identifier by the one row the service returned,
  \<open>deleteTask\<close> only removes entries, \<open>addTask\<close> prepends the created row, whose
  identifier is new, and a click leaves the list alone.
\<close>

lemma distinct_sameFlag:
  assumes "distinct (map task_id ts)"
  shows "sameFlag ts"
proof -
  have "inj_on task_id (set ts)"
    using assms by (simp add: distinct_map)
  then show ?thesis
    by (auto simp: sameFlag_def inj_on_def)
qed

lemma initial_sameFlag: "sameFlag (tasks (initial r))"
  by (simp add: initial_def sameFlag_def)

lemma sameFlag_replace:
  assumes "sameFlag ts"
  shows "sameFlag (map (\<lambda>t. if task_id t = task_id u then u else t) ts)"
  unfolding sameFlag_def
proof (intro ballI impI)
  fix a b
  assume a: "a \<in> set (map (\<lambda>t. if task_id t = task_id u then u else t) ts)"
    and b: "b \<in> set (map (\<lambda>t. if task_id t = task_id u then u else t) ts)"
    and eq: "task_id a = task_id b"
  from a have a': "a = u \<or> (a \<in> set ts \<and> task_id a \<noteq> task_id u)" by auto
  from b have b': "b = u \<or> (b \<in> set ts \<and> task_id b \<noteq> task_id u)" by auto
  from a' b' eq assms show "completed a = completed b"
    unfolding sameFlag_def by metis
qed

lemma sameFlag_filter: "sameFlag ts \<Longrightarrow> sameFlag (filter P ts)"
  by (simp add: sameFlag_def)

lemma sameFlag_fresh:
  assumes "sameFlag ts" and "task_id t \<notin> ids ts"
  shows "sameFlag (t # ts)"
  unfolding sameFlag_def
proof (intro ballI impI)
  fix a b
  assume a: "a \<in> set (t # ts)" and b: "b \<in> set (t # ts)" and eq: "task_id a = task_id b"
  have "\<And>x. x \<in> set ts \<Longrightarrow> task_id x \<in> ids ts"
    by (simp add: ids_def)
  then have n: "\<And>x. x \<in> set ts \<Longrightarrow> task_id x \<noteq> task_id t"
    using assms(2) by metis
  from a b eq n assms(1) show "completed a = completed b"
    unfolding sameFlag_def by (metis set_ConsD)
qed

lemma toggleTask_tasks:
  "tasks (toggleTask svc t w) = tasks w
   \<or> (\<exists>u. tasks (toggleTask svc t w) = map (\<lambda>x. if task_id x = task_id u then u else x) (tasks w))"
proof (cases "error (fst (updateCompleted svc (task_id t) (\<not> completed t) (remote w)))")
  case (Some msg)
  then show ?thesis by (simp add: toggleTask_def Let_def case_prod_beta)
next
  case None
  show ?thesis
  proof (cases "data (fst (updateCompleted svc (task_id t) (\<not> completed t) (remote w)))")
    case N: None
    with None show ?thesis by (simp add: toggleTask_def Let_def case_prod_beta)
  next
    case (Some u)
    with None have "tasks (toggleTask svc t w)
        = map (\<lambda>x. if task_id x = task_id u then u else x) (tasks w)"
      by (simp add: toggleTask_def Let_def case_prod_beta)
    then show ?thesis by blast
  qed
qed

lemma toggleTask_sameFlag:
  assumes "sameFlag (tasks w)"
  shows "sameFlag (tasks (toggleTask svc t w))"
  using toggleTask_tasks [of svc t w] assms sameFlag_replace [of "tasks w"] by auto

lemma deleteTask_tasks:
  "tasks (deleteTask svc i w) = tasks w
   \<or> tasks (deleteTask svc i w) = filter (\<lambda>task. task_id task \<noteq> i) (tasks w)"
  by (simp add: deleteTask_def Let_def case_prod_beta split: option.splits)

lemma deleteTask_sameFlag:
  assumes "sameFlag (tasks w)"
  shows "sameFlag (tasks (deleteTask svc i w))"
  using deleteTask_tasks [of svc i w] assms sameFlag_filter [of "tasks w"] by auto

lemma addTask_tasks:
  "tasks (addTask svc d w) = tasks w
   \<or> (\<exists>uid t. data (fst (insertTask svc (insertRowOf uid d) (remote w))) = Some t
          \<and> tasks (addTask svc d w) = t # tasks w)"
proof (cases "trim (form_title d) = []")
  case True
  then show ?thesis by (simp add: addTask_def)
next
  case blank: False
  show ?thesis
  proof (cases "getSession svc (remote w)")
    case None
    with blank show ?thesis by (simp add: addTask_def Let_def)
  next
    case (Some uid)
    show ?thesis
    proof (cases "error (fst (insertTask svc (insertRowOf uid d) (remote w)))")
      case E: (Some msg)
      with blank Some show ?thesis by (simp add: addTask_def Let_def case_prod_beta)
    next
      case ok: None
      show ?thesis
      proof (cases "data (fst (insertTask svc (insertRowOf uid d) (remote w)))")
        case None
        with blank Some ok show ?thesis by (simp add: addTask_def Let_def case_prod_beta)
      next
        case D: (Some t)
        with blank Some ok have "tasks (addTask svc d w) = t # tasks w"
          by (simp add: addTask_def Let_def case_prod_beta)
        with D show ?thesis by blast
      qed
    qed
  qed
qed

lemma addTask_sameFlag:
  assumes "sameFlag (tasks w)"
    and "\<And>uid t. data (fst (insertTask svc (insertRowOf uid d) (remote w))) = Some t
           \<Longrightarrow> task_id t \<notin> ids (tasks w)"
  shows "sameFlag (tasks (addTask svc d w))"
  using addTask_tasks [of svc d w] assms sameFlag_fresh [of "tasks w"] by metis

lemma click_sameFlag: "sameFlag (tasks w) \<Longrightarrow> sameFlag (tasks (click b w))"
  by (simp add: click_def)


text \<open>
  C3. For every task list the page can hold (entries with the same identifier agree on
  the completion flag, as above), whatever the sort modes and the argument order of the
  comparator call, the identifiers shown by filter mode "completed" and those shown by
  filter mode "pending" are disjoint, and together they are the identifiers shown by
  filter mode "all".
\<close>

theorem C3_filter_partition:
  assumes "sameFlag ts"
  shows "ids (filteredTasks e ts FilterCompleted s1) \<inter> ids (filteredTasks e ts FilterPending s2) = {}
    \<and> ids (filteredTasks e ts FilterCompleted s1) \<union> ids (filteredTasks e ts FilterPending s2)
        = ids (filteredTasks e ts FilterAll s3)"
proof -
  have "task_id ` {t \<in> set ts. completed t} \<inter> task_id ` {t \<in> set ts. \<not> completed t} = {}"
    using assms unfolding sameFlag_def by blast
  moreover have "task_id ` {t \<in> set ts. completed t} \<union> task_id ` {t \<in> set ts. \<not> completed t}
      = task_id ` set ts"
    by auto
  ultimately show ?thesis
    by (simp add: ids_def filteredTasks_eq set_arraySort)
qed


text \<open>The theorem at a list of the completed tasks \<open>1\<close> and \<open>3\<close> and the pending task \<open>2\<close>.\<close>

theorem C3_filter_partition_witness:
  "sameFlag [exTask ''1'' None None True, exTask ''2'' None None False, exTask ''3'' None None True]
   \<and> ids (filteredTasks LaterFirst
        [exTask ''1'' None None True, exTask ''2'' None None False, exTask ''3'' None None True]
        FilterCompleted SortNewest) = {''1'', ''3''}
   \<and> ids (filteredTasks LaterFirst
        [exTask ''1'' None None True, exTask ''2'' None None False, exTask ''3'' None None True]
        FilterPending SortDue) = {''2''}
   \<and> ids (filteredTasks LaterFirst
        [exTask ''1'' None None True, exTask ''2'' None None False, exTask ''3'' None None True]
        FilterCompleted SortNewest)
     \<inter> ids (filteredTasks LaterFirst
        [exTask ''1'' None None True, exTask ''2'' None None False, exTask ''3'' None None True]
        FilterPending SortDue) = {}
   \<and> ids (filteredTasks LaterFirst
        [exTask ''1'' None None True, exTask ''2'' None None False, exTask ''3'' None None True]
        FilterCompleted SortNewest)
     \<union> ids (filteredTasks LaterFirst
        [exTask ''1'' None None True, exTask ''2'' None None False, exTask ''3'' None None True]
        FilterPending SortDue)
     = ids (filteredTasks LaterFirst
        [exTask ''1'' None None True, exTask ''2'' None None False, exTask ''3'' None None True]
        FilterAll SortPriority)"
proof -
  let ?xs = "[exTask ''1'' None None True, exTask ''2'' None None False, exTask ''3'' None None True]"
  have "distinct (map task_id ?xs)"
    by (simp add: exTask_def)
  then have h: "sameFlag ?xs"
    by (rule distinct_sameFlag)
  have a: "ids (filteredTasks LaterFirst ?xs FilterCompleted SortNewest) = {''1'', ''3''}"
    by (simp add: ids_def filteredTasks_eq set_arraySort exTask_def)
  have b: "ids (filteredTasks LaterFirst ?xs FilterPending SortDue) = {''2''}"
    by (simp add: ids_def filteredTasks_eq set_arraySort exTask_def)
  note c = C3_filter_partition [OF h, of LaterFirst SortNewest SortDue SortPriority]
  show ?thesis
    by (intro conjI h a b c [THEN conjunct1] c [THEN conjunct2])
qed


section \<open>Submitting a blank title\<close>

lemma dropWhile_all: "(\<forall>x\<in>set (dropWhile P s). P x) = (dropWhile P s = [])"
proof
  assume all: "\<forall>x\<in>set (dropWhile P s). P x"
  show "dropWhile P s = []"
  proof (rule ccontr)
    assume ne: "dropWhile P s \<noteq> []"
    then have "\<not> P (hd (dropWhile P s))" by (rule hd_dropWhile)
    moreover have "hd (dropWhile P s) \<in> set (dropWhile P s)" using ne by (rule hd_in_set)
    ultimately show False using all by blast
  qed
next
  assume e: "dropWhile P s = []"
  show "\<forall>x\<in>set (dropWhile P s). P x" unfolding e by simp
qed

lemma trim_blank: "(trim s = []) = (\<forall>c\<in>set s. isWhiteSpace c)"
  by (simp add: trim_def dropWhile_eq_Nil_conv [of isWhiteSpace "rev (dropWhile isWhiteSpace s)"]
      dropWhile_all dropWhile_eq_Nil_conv [of isWhiteSpace s])


text \<open>
  C4. When the submitted title is empty or consists only of white space (every code unit
  is white space in the sense of \<^verbatim>\<open>trim\<close>), \<open>addTask\<close> returns the state it was
  given: no call to the service is recorded (neither the session lookup nor a create
  request), the state of the service is untouched, the task list gains no entry, the
  form values are not reset and the wizard step is unchanged.
\<close>

theorem C4_blank_title_aborts:
  assumes "\<forall>c\<in>set (form_title d). isWhiteSpace c"
  shows "addTask svc d w = w
    \<and> sent (addTask svc d w) = sent w \<and> remote (addTask svc d w) = remote w
    \<and> tasks (addTask svc d w) = tasks w
    \<and> form (addTask svc d w) = form w \<and> step (addTask svc d w) = step w"
proof -
  have "trim (form_title d) = []"
    using assms by (simp add: trim_blank)
  then have "addTask svc d w = w"
    by (simp add: addTask_def)
  then show ?thesis by simp
qed


text \<open>
  The theorem at a title made of a space, a no-break space, an ideographic space and a
  tab, submitted at step 3.
\<close>

theorem C4_blank_title_aborts_witness:
  "trim (form_title (exForm [32, 160, 12288, 9])) = []
   \<and> addTask tableService (exForm [32, 160, 12288, 9]) (exWorld None []) = exWorld None []
   \<and> sent (addTask tableService (exForm [32, 160, 12288, 9]) (exWorld None [])) = []
   \<and> step (addTask tableService (exForm [32, 160, 12288, 9]) (exWorld None [])) = 3"
proof -
  have h: "\<forall>c\<in>set (form_title (exForm [32, 160, 12288, 9])). isWhiteSpace c"
    by (simp add: exForm_def isWhiteSpace_def)
  have t: "trim (form_title (exForm [32, 160, 12288, 9])) = []"
    using h by (simp only: trim_blank)
  from C4_blank_title_aborts [OF h, of tableService "exWorld None []"] t
  show ?thesis by (simp add: exWorld_def)
qed


section \<open>Remote failures\<close>

lemma addTask_insert_fails:
  assumes "trim (form_title d) \<noteq> []" and "getSession svc (remote w) = Some uid"
    and "error (fst (insertTask svc (insertRowOf uid d) (remote w))) = Some msg"
  shows "tasks (addTask svc d w) = tasks w" "form (addTask svc d w) = form w"
    "step (addTask svc d w) = step w"
    "console (addTask svc d w) = console w @ [''Error adding task: '' @ msg]"
  using assms
  by (simp_all add: addTask_def Let_def case_prod_beta)

lemma toggleTask_fails:
  assumes "error (fst (updateCompleted svc (task_id t) (\<not> completed t) (remote w))) = Some msg"
  shows "tasks (toggleTask svc t w) = tasks w" "form (toggleTask svc t w) = form w"
    "step (toggleTask svc t w) = step w"
    "console (toggleTask svc t w) = console w @ [''Error toggling task: '' @ msg]"
  using assms
  by (simp_all add: toggleTask_def Let_def case_prod_beta)

lemma deleteTask_fails:
  assumes "fst (deleteById svc i (remote w)) = Some msg"
  shows "tasks (deleteTask svc i w) = tasks w" "form (deleteTask svc i w) = form w"
    "step (deleteTask svc i w) = step w"
    "console (deleteTask svc i w) = console w @ [''Error deleting task: '' @ msg]"
  using assms
  by (simp_all add: deleteTask_def Let_def case_prod_beta)


text \<open>
  C5. When the service answers with an error, each of \<open>addTask\<close>, \<open>toggleTask\<close> and
  \<open>deleteTask\<close> leaves the task list unchanged, and the form values and the wizard step
  as well; the only trace is one line on the console. Every operation of the model is a
  total function to a page state: no branch raises.
\<close>

theorem C5_remote_failure_keeps_state:
  "(trim (form_title d) \<noteq> [] \<and> getSession svc (remote w) = Some uid
      \<and> error (fst (insertTask svc (insertRowOf uid d) (remote w))) = Some msg
    \<longrightarrow> tasks (addTask svc d w) = tasks w \<and> form (addTask svc d w) = form w
        \<and> step (addTask svc d w) = step w
        \<and> console (addTask svc d w) = console w @ [''Error adding task: '' @ msg])
   \<and> (error (fst (updateCompleted svc (task_id t) (\<not> completed t) (remote w))) = Some msg
    \<longrightarrow> tasks (toggleTask svc t w) = tasks w \<and> form (toggleTask svc t w) = form w
        \<and> step (toggleTask svc t w) = step w
        \<and> console (toggleTask svc t w) = console w @ [''Error toggling task: '' @ msg])
   \<and> (fst (deleteById svc i (remote w)) = Some msg
    \<longrightarrow> tasks (deleteTask svc i w) = tasks w \<and> form (deleteTask svc i w) = form w
        \<and> step (deleteTask svc i w) = step w
        \<and> console (deleteTask svc i w) = console w @ [''Error deleting task: '' @ msg])"
proof -
  have a: "trim (form_title d) \<noteq> [] \<and> getSession svc (remote w) = Some uid
      \<and> error (fst (insertTask svc (insertRowOf uid d) (remote w))) = Some msg
    \<longrightarrow> tasks (addTask svc d w) = tasks w \<and> form (addTask svc d w) = form w
        \<and> step (addTask svc d w) = step w
        \<and> console (addTask svc d w) = console w @ [''Error adding task: '' @ msg]"
    using addTask_insert_fails [of d svc w uid msg] by blast
  have b: "error (fst (updateCompleted svc (task_id t) (\<not> completed t) (remote w))) = Some msg
    \<longrightarrow> tasks (toggleTask svc t w) = tasks w \<and> form (toggleTask svc t w) = form w
        \<and> step (toggleTask svc t w) = step w
        \<and> console (toggleTask svc t w) = console w @ [''Error toggling task: '' @ msg]"
    using toggleTask_fails [of svc t w msg] by blast
  have c: "fst (deleteById svc i (remote w)) = Some msg
    \<longrightarrow> tasks (deleteTask svc i w) = tasks w \<and> form (deleteTask svc i w) = form w
        \<and> step (deleteTask svc i w) = step w
        \<and> console (deleteTask svc i w) = console w @ [''Error deleting task: '' @ msg]"
    using deleteTask_fails [of svc i w msg] by blast
  show ?thesis
    by (intro conjI a b c)
qed


text \<open>The theorem at a service that answers every table call with the error "offline".\<close>

theorem C5_remote_failure_keeps_state_witness:
  "tasks (addTask tableService (exForm (ascii ''Buy milk'')) (exWorld (Some ''offline'') [exTask ''1'' None None False]))
     = [exTask ''1'' None None False]
   \<and> step (addTask tableService (exForm (ascii ''Buy milk'')) (exWorld (Some ''offline'') [exTask ''1'' None None False])) = 3
   \<and> console (addTask tableService (exForm (ascii ''Buy milk'')) (exWorld (Some ''offline'') [exTask ''1'' None None False]))
     = [''Error adding task: offline'']
   \<and> tasks (toggleTask tableService (exTask ''1'' None None False) (exWorld (Some ''offline'') [exTask ''1'' None None False]))
     = [exTask ''1'' None None False]
   \<and> tasks (deleteTask tableService ''1'' (exWorld (Some ''offline'') [exTask ''1'' None None False]))
     = [exTask ''1'' None None False]"
proof -
  let ?w = "exWorld (Some ''offline'') [exTask ''1'' None None False]"
  let ?d = "exForm (ascii ''Buy milk'')"
  have h1: "trim (form_title ?d) \<noteq> [] \<and> getSession tableService (remote ?w) = Some ''user-1''
      \<and> error (fst (insertTask tableService (insertRowOf ''user-1'' ?d) (remote ?w))) = Some ''offline''"
    by (simp add: exForm_def trim_example exWorld_simps tableService_simps)
  have h2: "error (fst (updateCompleted tableService (task_id (exTask ''1'' None None False))
      (\<not> completed (exTask ''1'' None None False)) (remote ?w))) = Some ''offline''"
    by (simp add: exWorld_simps tableService_simps)
  have h3: "fst (deleteById tableService ''1'' (remote ?w)) = Some ''offline''"
    by (simp add: exWorld_simps tableService_simps)
  from C5_remote_failure_keeps_state [of ?d tableService ?w "''user-1''" "''offline''"
      "exTask ''1'' None None False" "''1''"] h1 h2 h3
  show ?thesis by (simp add: exWorld_simps)
qed


section \<open>deleteTask\<close>

text \<open>
  C6. When the identifiers of the task list are pairwise distinct, the list contains a
  task \<open>t\<close> with identifier \<open>i\<close>, and the service answers the delete request without
  error, \<open>deleteTask i\<close> removes exactly that entry: the list was \<open>before @ t # after\<close>
  and becomes \<open>before @ after\<close>, one entry shorter, the other tasks unchanged and in
  the same order.
\<close>

theorem C6_delete_removes_one:
  assumes "distinct (map task_id (tasks w))" and "t \<in> set (tasks w)" and "task_id t = i"
    and "fst (deleteById svc i (remote w)) = None"
  shows "\<exists>before after. tasks w = before @ t # after
      \<and> tasks (deleteTask svc i w) = before @ after
      \<and> tasks (deleteTask svc i w) = remove1 t (tasks w)
      \<and> length (tasks (deleteTask svc i w)) + 1 = length (tasks w)"
proof -
  from assms(2) obtain before after where split: "tasks w = before @ t # after"
    by (auto simp: in_set_conv_decomp)
  have other: "task_id x \<noteq> i" if "x \<in> set before \<union> set after" for x
    using assms(1,3) that unfolding split by (auto simp: image_iff)
  have kept: "filter (\<lambda>task. task_id task \<noteq> i) before = before"
    "filter (\<lambda>task. task_id task \<noteq> i) after = after"
    using other by (simp_all add: filter_id_conv)
  have res: "tasks (deleteTask svc i w) = before @ after"
    using assms(3,4) by (simp add: deleteTask_def Let_def case_prod_beta split kept)
  have "t \<notin> set before"
    using other assms(3) by auto
  then have "remove1 t (tasks w) = before @ after"
    by (simp add: split remove1_append)
  with res split show ?thesis by auto
qed


text \<open>The theorem at the list of tasks \<open>1\<close>, \<open>2\<close>, \<open>3\<close>, deleting \<open>2\<close>.\<close>

theorem C6_delete_removes_one_witness:
  "distinct (map task_id [exTask ''1'' None None False, exTask ''2'' None None True, exTask ''3'' None None False])
   \<and> tasks (deleteTask tableService ''2''
        (exWorld None [exTask ''1'' None None False, exTask ''2'' None None True, exTask ''3'' None None False]))
     = [exTask ''1'' None None False, exTask ''3'' None None False]"
proof -
  let ?ts = "[exTask ''1'' None None False, exTask ''2'' None None True, exTask ''3'' None None False]"
  let ?w = "exWorld None ?ts"
  have h1: "distinct (map task_id (tasks ?w))"
    by (simp add: exWorld_simps exTask_def)
  have h2: "exTask ''2'' None None True \<in> set (tasks ?w)"
    by (simp add: exWorld_simps)
  have h3: "task_id (exTask ''2'' None None True) = ''2''"
    by (simp add: exTask_def)
  have h4: "fst (deleteById tableService ''2'' (remote ?w)) = None"
    by (simp add: exWorld_simps tableService_simps)
  from C6_delete_removes_one [OF h1 h2 h3 h4]
  have "tasks (deleteTask tableService ''2'' ?w) = remove1 (exTask ''2'' None None True) (tasks ?w)"
    by blast
  then have "tasks (deleteTask tableService ''2'' ?w)
      = [exTask ''1'' None None False, exTask ''3'' None None False]"
    by (simp add: exWorld_simps exTask_def)
  with h1 show ?thesis by (simp add: exWorld_simps)
qed


section \<open>toggleTask\<close>

lemma flipped_simps:
  "task_id (flipped t) = task_id t" "completed (flipped t) = (\<not> completed t)"
  "flipped (flipped t) = t"
  by (simp_all add: flipped_def)

lemma toggleTask_applied:
  assumes "appliesToggle svc t (remote w)"
  shows "tasks (toggleTask svc t w)
    = map (\<lambda>x. if task_id x = task_id t then flipped t else x) (tasks w)"
  using assms
  by (simp add: toggleTask_def appliesToggle_def Let_def case_prod_beta flipped_simps)


text \<open>
  C7. Take the task at position \<open>n\<close> of the task list and toggle it twice, the service
  applying both updates: the second toggle is called on the task found at position \<open>n\<close>
  after the first. After the first toggle that position holds the task with its
  completion flag negated and every other field as before; after the second it holds
  the original task again, identifier, flag and all other fields.
\<close>

theorem C7_toggle_twice_restores:
  assumes "n < length (tasks w)"
    and "appliesToggle svc (tasks w ! n) (remote w)"
    and "appliesToggle svc (tasks (toggleTask svc (tasks w ! n) w) ! n)
           (remote (toggleTask svc (tasks w ! n) w))"
  shows "tasks (toggleTask svc (tasks w ! n) w) ! n = (tasks w ! n)\<lparr>completed := \<not> completed (tasks w ! n)\<rparr>
    \<and> tasks (toggleTask svc (tasks (toggleTask svc (tasks w ! n) w) ! n)
               (toggleTask svc (tasks w ! n) w)) ! n = tasks w ! n"
proof -
  let ?t = "tasks w ! n"
  let ?w1 = "toggleTask svc ?t w"
  have l1: "tasks ?w1 = map (\<lambda>x. if task_id x = task_id ?t then flipped ?t else x) (tasks w)"
    using assms(2) by (rule toggleTask_applied)
  then have first: "tasks ?w1 ! n = flipped ?t"
    using assms(1) by simp
  have n1: "n < length (tasks ?w1)"
    using assms(1) l1 by simp
  have "tasks (toggleTask svc (tasks ?w1 ! n) ?w1)
      = map (\<lambda>x. if task_id x = task_id (tasks ?w1 ! n) then flipped (tasks ?w1 ! n) else x) (tasks ?w1)"
    using assms(3) by (rule toggleTask_applied)
  then have "tasks (toggleTask svc (tasks ?w1 ! n) ?w1) ! n = ?t"
    using n1 first by (simp add: flipped_simps)
  with first show ?thesis
    by (simp add: flipped_def)
qed


text \<open>The theorem at the table service, toggling the second of two tasks.\<close>

theorem C7_toggle_twice_restores_witness:
  "1 < length (tasks (exWorld None [exTask ''1'' None None True, exTask ''2'' None (Some ''High'') False]))
   \<and> appliesToggle tableService (exTask ''2'' None (Some ''High'') False)
        (exServer None [exTask ''1'' None None True, exTask ''2'' None (Some ''High'') False])
   \<and> tasks (toggleTask tableService (exTask ''2'' None (Some ''High'') False)
        (exWorld None [exTask ''1'' None None True, exTask ''2'' None (Some ''High'') False]))
      = [exTask ''1'' None None True, exTask ''2'' None (Some ''High'') True]
   \<and> tasks (toggleTask tableService (exTask ''2'' None (Some ''High'') True)
        (toggleTask tableService (exTask ''2'' None (Some ''High'') False)
          (exWorld None [exTask ''1'' None None True, exTask ''2'' None (Some ''High'') False]))) ! 1
      = exTask ''2'' None (Some ''High'') False"
proof -
  let ?t = "exTask ''2'' None (Some ''High'') False"
  let ?u = "exTask ''2'' None (Some ''High'') True"
  let ?ts = "[exTask ''1'' None None True, ?t]"
  let ?w = "exWorld None ?ts"
  have n: "tasks ?w ! 1 = ?t"
    by (simp add: exWorld_simps)
  have h1: "1 < length (tasks ?w)"
    by (simp add: exWorld_simps)
  have a: "appliesToggle tableService ?t (exServer None ?ts)"
    by (simp add: appliesToggle_def tableService_def serverUpdate_def exServer_def exTask_def flipped_def)
  then have h2: "appliesToggle tableService (tasks ?w ! 1) (remote ?w)"
    by (simp add: exWorld_simps)
  have w1: "toggleTask tableService ?t ?w
      = \<lparr>tasks = [exTask ''1'' None None True, ?u], step = 3, form = exForm (ascii ''Buy milk''), console = [],
         sent = [Update ''2'' True], remote = exServer None [exTask ''1'' None None True, ?u]\<rparr>"
    by (simp add: toggleTask_def tableService_def serverUpdate_def exWorld_def exServer_def exTask_def)
  have h3: "appliesToggle tableService (tasks (toggleTask tableService (tasks ?w ! 1) ?w) ! 1)
      (remote (toggleTask tableService (tasks ?w ! 1) ?w))"
    unfolding n w1
    by (simp add: appliesToggle_def tableService_def serverUpdate_def exServer_def exTask_def flipped_def)
  have m: "tasks (toggleTask tableService ?t ?w) = [exTask ''1'' None None True, ?u]"
    by (simp add: w1)
  have "tasks (toggleTask tableService (tasks (toggleTask tableService (tasks ?w ! 1) ?w) ! 1)
      (toggleTask tableService (tasks ?w ! 1) ?w)) ! 1 = tasks ?w ! 1"
    using C7_toggle_twice_restores [OF h1 h2 h3] by (rule conjunct2)
  then have "tasks (toggleTask tableService ?u (toggleTask tableService ?t ?w)) ! 1 = ?t"
    unfolding n m by simp
  with h1 a m show ?thesis by blast
qed


section \<open>The create request\<close>

lemma addTask_reaches_insert:
  assumes "trim (form_title d) \<noteq> []" and "getSession svc (remote w) = Some uid"
  shows "sent (addTask svc d w) = sent w @ [GetSession, Insert (insertRowOf uid d)]"
  using assms
  by (simp add: addTask_def Let_def case_prod_beta split: option.splits)

lemma addTask_independent:
  "sent (addTask svc (d\<lparr>tags := x, subtasks := y, recurring_interval := z\<rparr>) w) = sent (addTask svc d w)"
  by (simp add: addTask_def insertRowOf_def Let_def case_prod_beta split: option.splits)


text \<open>
  C8. A submission that reaches the create request (title not blank, session present)
  sends, after the session lookup, exactly one insert whose row has the five fields
  user reference, title, due date or null, note or null, and priority, "Medium" when
  the form has none. The type of the row has no other field, and the calls sent are the
  same whatever the form holds for tags, subtasks and recurrence interval.
\<close>

theorem C8_insert_payload:
  assumes "trim (form_title d) \<noteq> []" and "getSession svc (remote w) = Some uid"
  shows "sent (addTask svc d w) = sent w @ [GetSession,
        Insert \<lparr>user_id = uid, row_title = form_title d,
                row_due_date = (if present (form_due_date d) then form_due_date d else None),
                row_note = (if present (form_note d) then form_note d else None),
                row_priority = (if present (form_priority d) then orEmpty (form_priority d)
                                else ''Medium'')\<rparr>]
    \<and> sent (addTask svc (d\<lparr>tags := x, subtasks := y, recurring_interval := z\<rparr>) w)
        = sent (addTask svc d w)"
proof (rule conjI)
  show "sent (addTask svc d w) = sent w @ [GetSession,
        Insert \<lparr>user_id = uid, row_title = form_title d,
                row_due_date = (if present (form_due_date d) then form_due_date d else None),
                row_note = (if present (form_note d) then form_note d else None),
                row_priority = (if present (form_priority d) then orEmpty (form_priority d)
                                else ''Medium'')\<rparr>]"
    using addTask_reaches_insert [OF assms] by (simp add: insertRowOf_def orNull_def)
  show "sent (addTask svc (d\<lparr>tags := x, subtasks := y, recurring_interval := z\<rparr>) w)
        = sent (addTask svc d w)"
    by (rule addTask_independent)
qed


text \<open>
  The theorem at a form with an empty due date, a note, no priority, and values for
  tags, subtasks and recurrence interval.
\<close>

theorem C8_insert_payload_witness:
  "trim (form_title (exForm (ascii ''Buy milk''))) \<noteq> []
   \<and> getSession tableService (remote (exWorld None [])) = Some ''user-1''
   \<and> sent (addTask tableService (exForm (ascii ''Buy milk'')) (exWorld None []))
      = [GetSession, Insert \<lparr>user_id = ''user-1'', row_title = ascii ''Buy milk'', row_due_date = None,
           row_note = Some ''call first'', row_priority = ''Medium''\<rparr>]
   \<and> sent (addTask tableService ((exForm (ascii ''Buy milk''))\<lparr>tags := None, subtasks := None,
           recurring_interval := None\<rparr>) (exWorld None []))
      = sent (addTask tableService (exForm (ascii ''Buy milk'')) (exWorld None []))"
proof -
  have h1: "trim (form_title (exForm (ascii ''Buy milk''))) \<noteq> []"
    by (simp add: exForm_def trim_example)
  have h2: "getSession tableService (remote (exWorld None [])) = Some ''user-1''"
    by (simp add: exWorld_simps tableService_simps)
  from C8_insert_payload [OF h1 h2, of None None None] h1 h2
  show ?thesis by (simp add: exForm_def exWorld_simps)
qed


text \<open>
  C10. A submission that reaches the create request sends the title as the form holds
  it: \<open>trim\<close> is used for the emptiness check only.
\<close>

theorem C10_title_sent_verbatim:
  assumes "trim (form_title d) \<noteq> []" and "getSession svc (remote w) = Some uid"
  shows "\<exists>row. sent (addTask svc d w) = sent w @ [GetSession, Insert row]
      \<and> row_title row = form_title d"
  using addTask_reaches_insert [OF assms]
  by (simp add: insertRowOf_def)


text \<open>
  The theorem at the title \<open>''  Buy milk ''\<close>, whose trimmed form is \<open>''Buy milk''\<close>:
  the row carries the spaces.
\<close>

theorem C10_title_sent_verbatim_witness:
  "trim (form_title (exForm (ascii ''  Buy milk ''))) = ascii ''Buy milk''
   \<and> getSession tableService (remote (exWorld None [])) = Some ''user-1''
   \<and> (\<exists>row. sent (addTask tableService (exForm (ascii ''  Buy milk '')) (exWorld None []))
          = [GetSession, Insert row] \<and> row_title row = ascii ''  Buy milk '')"
proof -
  have t: "trim (form_title (exForm (ascii ''  Buy milk ''))) = ascii ''Buy milk''"
    by (simp add: exForm_def trim_example)
  then have h1: "trim (form_title (exForm (ascii ''  Buy milk ''))) \<noteq> []"
    by (simp add: trim_example)
  have h2: "getSession tableService (remote (exWorld None [])) = Some ''user-1''"
    by (simp add: exWorld_simps tableService_simps)
  from C10_title_sent_verbatim [OF h1 h2] t h2
  show ?thesis by (simp add: exForm_def exWorld_simps)
qed


section \<open>The wizard\<close>

lemma click_form: "form (click b w) = form w"
  by (simp add: click_def)

lemma click_step_range: "step w \<in> {1, 2, 3} \<Longrightarrow> step (click b w) \<in> {1, 2, 3}"
  by (cases b) (auto simp: click_def)

lemma clicks_invariant:
  "step w \<in> {1, 2, 3} \<Longrightarrow> step (clicks bs w) \<in> {1, 2, 3} \<and> form (clicks bs w) = form w"
  unfolding clicks_def
proof (induction bs arbitrary: w)
  case Nil
  then show ?case by simp
next
  case (Cons b bs)
  from Cons.IH [OF click_step_range [OF Cons.prems, of b]]
  show ?case by (simp add: click_form)
qed


text \<open>
  C9. From a state at step 1, after any sequence of clicks on "Back" and "Next" the step
  is 1, 2 or 3 and the form values are those of the start. A click on "Back" decrements
  the step when it is greater than 1 and otherwise changes nothing, a click on "Next"
  increments it when it is less than 3 and otherwise changes nothing, and no click
  changes a form value.
\<close>

theorem C9_wizard_step_range:
  assumes "step w = 1"
  shows "step (clicks bs w) \<in> {1, 2, 3}
   \<and> form (clicks bs w) = form w
   \<and> step (click Back v) = (if step v > 1 then step v - 1 else step v)
   \<and> step (click Next v) = (if step v < 3 then step v + 1 else step v)
   \<and> form (click b v) = form v"
proof -
  have "step w \<in> {1, 2, 3}"
    using assms by simp
  then have "step (clicks bs w) \<in> {1, 2, 3} \<and> form (clicks bs w) = form w"
    by (rule clicks_invariant)
  then show ?thesis
    by (simp add: click_def)
qed


text \<open>The theorem at the initial state and the clicks Next, Next, Next, Back.\<close>

theorem C9_wizard_step_range_witness:
  "step (initial (exServer None [])) = 1
   \<and> step (clicks [Next, Next, Next, Back] (initial (exServer None []))) = 2
   \<and> step (clicks [Next, Next, Next, Back] (initial (exServer None []))) \<in> {1, 2, 3}
   \<and> form (clicks [Next, Next, Next, Back] (initial (exServer None []))) = emptyForm"
proof -
  have h: "step (initial (exServer None [])) = 1"
    by (simp add: initial_def)
  have v: "step (clicks [Next, Next, Next, Back] (initial (exServer None []))) = 2"
    by (simp add: clicks_def click_def initial_def)
  have "form (clicks [Next, Next, Next, Back] (initial (exServer None []))) = form (initial (exServer None []))"
    and r: "step (clicks [Next, Next, Next, Back] (initial (exServer None []))) \<in> {1, 2, 3}"
    using C9_wizard_step_range [OF h, of "[Next, Next, Next, Back]"] by blast+
  then have "form (clicks [Next, Next, Next, Back] (initial (exServer None []))) = emptyForm"
    by (simp add: initial_def)
  with h v r show ?thesis by blast
qed

end
